theory Spec2Isabelle
  imports Main
begin

section \<open>Coverage remapping in \<^verbatim>\<open>bot/code_coverage_bot/phabricator.py\<close>\<close>

text \<open>
  The development embeds \<^verbatim>\<open>parse_revision_id\<close> and the methods
  \<^verbatim>\<open>_find_coverage\<close>, \<^verbatim>\<open>_build_coverage_map\<close>,
  \<^verbatim>\<open>_apply_coverage_map\<close> and \<^verbatim>\<open>generate\<close> of
  \<^verbatim>\<open>PhabricatorUploader\<close>. Python integers are \<open>int\<close>, Python
  dictionaries are maps, and every exception the code can raise is a value of
  \<open>error\<close>, returned on the left of a sum. Logging is left out: it never changes
  what is returned.
\<close>

subsection \<open>Errors and Python subscripting\<close>

datatype error = KeyError | IndexError | AssertionError

text \<open>
  \<^verbatim>\<open>xs[i]\<close> on a Python sequence: an index below zero is counted from the end,
  and an index that is still out of range after that raises \<^verbatim>\<open>IndexError\<close>.
\<close>

definition py_getitem :: "'a list \<Rightarrow> int \<Rightarrow> error + 'a" where
  "py_getitem xs i =
     (if 0 \<le> i \<and> i < int (length xs) then Inr (xs ! nat i)
      else if i < 0 \<and> 0 \<le> int (length xs) + i then Inr (xs ! nat (int (length xs) + i))
      else Inl IndexError)"

subsection \<open>The review-request identifier of a commit message\<close>

text \<open>
  \<^verbatim>\<open>PHABRICATOR_REVISION_REGEX\<close> is the literal text below followed by
  \<^verbatim>\<open>[0-9]+\<close>. Its dots are not escaped, so each of them matches any character
  but a newline. \<^verbatim>\<open>search\<close> returns the leftmost match, and the digits are
  matched greedily.
\<close>

definition revision_regex_prefix :: string where
  "revision_regex_prefix = ''Differential Revision: https://phabricator.services.mozilla.com/D''"

fun match_prefix :: "string \<Rightarrow> string \<Rightarrow> string option" where
  "match_prefix [] s = Some s"
| "match_prefix (p # ps) [] = None"
| "match_prefix (p # ps) (c # cs) =
     (if (if p = CHR ''.'' then c \<noteq> CHR 0x0A else c = p) then match_prefix ps cs else None)"

definition is_digit :: "char \<Rightarrow> bool" where
  "is_digit c = (c \<in> set ''0123456789'')"

definition match_at :: "string \<Rightarrow> string option" where
  "match_at s =
     (case match_prefix revision_regex_prefix s of
        None \<Rightarrow> None
      | Some rest \<Rightarrow>
          (let digits = takeWhile is_digit rest in if digits = [] then None else Some digits))"

fun regex_search :: "string \<Rightarrow> string option" where
  "regex_search [] = match_at []"
| "regex_search (c # cs) =
     (case match_at (c # cs) of Some digits \<Rightarrow> Some digits | None \<Rightarrow> regex_search cs)"

definition int_of_digits :: "string \<Rightarrow> int" where
  "int_of_digits ds = foldl (\<lambda>n c. 10 * n + (int (of_char c) - 48)) 0 ds"

definition parse_revision_id :: "string \<Rightarrow> int option" where
  "parse_revision_id desc =
     (case regex_search desc of None \<Rightarrow> None | Some digits \<Rightarrow> Some (int_of_digits digits))"

subsection \<open>The covdir report and \<^verbatim>\<open>_find_coverage\<close>\<close>

text \<open>
  A node of the report is a Python dictionary. The code reads two of its keys,
  \<^verbatim>\<open>"children"\<close> and \<^verbatim>\<open>"coverage"\<close>; either may be missing (a file has
  no children, a directory has no coverage), and subscripting a missing key raises
  \<^verbatim>\<open>KeyError\<close>.
\<close>

datatype report =
  Report (report_children: "(string \<Rightarrow> report option) option") (report_coverage: "int list option")

text \<open>\<^verbatim>\<open>path.split("/")\<close>: the pieces between the slashes, empty pieces included.\<close>

fun split_slash :: "string \<Rightarrow> string list" where
  "split_slash [] = [[]]"
| "split_slash (c # cs) =
     (if c = CHR ''/'' then [] # split_slash cs
      else (case split_slash cs of [] \<Rightarrow> [[c]] | part # parts \<Rightarrow> (c # part) # parts))"

text \<open>
  The loop over the segments, and the segments themselves, \<^verbatim>\<open>filter(None, parts)\<close>.
  \<open>Inr None\<close> is Python's \<^verbatim>\<open>return\<close> without a value.
\<close>

fun find_coverage_parts :: "report \<Rightarrow> string list \<Rightarrow> error + int list option" where
  "find_coverage_parts report [] =
     (case report_coverage report of None \<Rightarrow> Inl KeyError | Some coverage \<Rightarrow> Inr (Some coverage))"
| "find_coverage_parts report (part # parts) =
     (case report_children report of
        None \<Rightarrow> Inl KeyError
      | Some children \<Rightarrow>
          (case children part of
             None \<Rightarrow> Inr None
           | Some child \<Rightarrow> find_coverage_parts child parts))"

definition path_parts :: "string \<Rightarrow> string list" where
  "path_parts path = filter (\<lambda>part. part \<noteq> []) (split_slash path)"

definition find_coverage :: "report \<Rightarrow> string \<Rightarrow> error + int list option" where
  "find_coverage report path = find_coverage_parts report (path_parts path)"

text \<open>
  The words of the specification, for comparison with the loop above:
  \<^verbatim>\<open>"/".join(parts)\<close>, which splitting undoes, and the node reached by descending
  from a node along a list of segments (there is none when a node on the way has no
  children or lacks the segment).
\<close>

fun join_slash :: "string list \<Rightarrow> string" where
  "join_slash [] = []"
| "join_slash [part] = part"
| "join_slash (part # next_part # parts) = part @ CHR ''/'' # join_slash (next_part # parts)"

fun descend :: "report \<Rightarrow> string list \<Rightarrow> report option" where
  "descend report [] = Some report"
| "descend report (part # parts) =
     (case report_children report of
        None \<Rightarrow> None
      | Some children \<Rightarrow>
          (case children part of None \<Rightarrow> None | Some child \<Rightarrow> descend child parts))"

subsection \<open>Annotate data, \<^verbatim>\<open>_build_coverage_map\<close> and \<^verbatim>\<open>_apply_coverage_map\<close>\<close>

text \<open>
  One entry of the annotate data of a file at a changeset: the line number at that
  changeset (\<^verbatim>\<open>"lineno"\<close>, from 1), the line number the line had when it was
  introduced (\<^verbatim>\<open>"targetline"\<close>) and the changeset that introduced it
  (\<^verbatim>\<open>"node"\<close>). The coverage map is a dictionary from the pair of the last two to
  a count.
\<close>

record annotate_line =
  lineno :: int
  targetline :: int
  node :: string

type_synonym coverage_map = "string \<times> int \<Rightarrow> int option"

definition coverage_key :: "annotate_line \<Rightarrow> string \<times> int" where
  "coverage_key data = (node data, targetline data)"

fun build_coverage_map_loop ::
  "annotate_line list \<Rightarrow> int list \<Rightarrow> coverage_map \<Rightarrow> error + coverage_map" where
  "build_coverage_map_loop [] coverage_record coverage_map = Inr coverage_map"
| "build_coverage_map_loop (data # annotate) coverage_record coverage_map =
     (if lineno data - 1 < int (length coverage_record) then
        (case py_getitem coverage_record (lineno data - 1) of
           Inl e \<Rightarrow> Inl e
         | Inr count \<Rightarrow>
             build_coverage_map_loop annotate coverage_record
               (coverage_map(coverage_key data \<mapsto> count)))
      else build_coverage_map_loop annotate coverage_record coverage_map)"

definition build_coverage_map :: "annotate_line list \<Rightarrow> int list \<Rightarrow> error + coverage_map" where
  "build_coverage_map annotate coverage_record =
     build_coverage_map_loop annotate coverage_record Map.empty"

text \<open>
  The body of the loop of \<^verbatim>\<open>_apply_coverage_map\<close>: the symbol appended for one
  record, by the test \<^verbatim>\<open>key in coverage_map\<close> and then the tests on the count.
\<close>

definition classify :: "coverage_map \<Rightarrow> annotate_line \<Rightarrow> char" where
  "classify coverage_map data =
     (case coverage_map (coverage_key data) of
        Some count \<Rightarrow>
          (if count = - 1 then CHR ''N'' else if count > 0 then CHR ''C'' else CHR ''U'')
      | None \<Rightarrow> CHR ''X'')"

fun apply_coverage_map_loop :: "annotate_line list \<Rightarrow> coverage_map \<Rightarrow> string \<Rightarrow> string" where
  "apply_coverage_map_loop [] coverage_map phab_coverage_data = phab_coverage_data"
| "apply_coverage_map_loop (data # annotate) coverage_map phab_coverage_data =
     apply_coverage_map_loop annotate coverage_map
       (phab_coverage_data @ [classify coverage_map data])"

definition apply_coverage_map :: "annotate_line list \<Rightarrow> coverage_map \<Rightarrow> string" where
  "apply_coverage_map annotate coverage_map = apply_coverage_map_loop annotate coverage_map []"

text \<open>
  The classification the specification derives directly from a raw count
  (\<open>-1\<close> is \<open>N\<close>, a positive count is \<open>C\<close>, anything else is \<open>U\<close>);
  the identity mapping is stated against it.
\<close>

definition raw_classification :: "int \<Rightarrow> char" where
  "raw_classification count =
     (if count = - 1 then CHR ''N'' else if 0 < count then CHR ''C'' else CHR ''U'')"

subsection \<open>\<^verbatim>\<open>generate\<close>\<close>

text \<open>
  A changeset of the batch (the keys \<^verbatim>\<open>"node"\<close>, \<^verbatim>\<open>"desc"\<close> and
  \<^verbatim>\<open>"files"\<close>), the dictionary stored for a path, and the entry of a changeset in
  the results, which are a dictionary from the node of a changeset to its entry.
\<close>

record changeset =
  changeset_node :: string
  desc :: string
  files :: "string list"

record path_result =
  lines_added :: nat
  lines_unknown :: nat
  lines_covered :: nat
  coverage :: string

record revision_result =
  revision_id :: int
  paths :: "string \<Rightarrow> path_result option"

type_synonym results = "string \<Rightarrow> revision_result option"

text \<open>
  \<^verbatim>\<open>hgmo_server.get_annotate(revision, path)\<close> is a call to a service outside the
  repository; it is a parameter here, a function of the revision and the path that
  returns the annotate data or \<open>None\<close>.
\<close>

type_synonym hgmo = "string \<Rightarrow> string \<Rightarrow> annotate_line list option"

text \<open>
  \<^verbatim>\<open>sum(test(coverage[line]) for line in lines_added if line < len(coverage))\<close>,
  with the running sum as an accumulator.
\<close>

fun sum_lines :: "(char \<Rightarrow> bool) \<Rightarrow> string \<Rightarrow> int list \<Rightarrow> nat \<Rightarrow> error + nat" where
  "sum_lines test coverage_str [] acc = Inr acc"
| "sum_lines test coverage_str (line # lines) acc =
     (if line < int (length coverage_str) then
        (case py_getitem coverage_str line of
           Inl e \<Rightarrow> Inl e
         | Inr c \<Rightarrow> sum_lines test coverage_str lines (acc + (if test c then 1 else 0)))
      else sum_lines test coverage_str lines acc)"

text \<open>
  The list \<^verbatim>\<open>lines_added\<close>:
  \<^verbatim>\<open>[line["lineno"] - 1 for line in annotate if line["node"] == changeset["node"]]\<close>.
\<close>

definition added_lines :: "string \<Rightarrow> annotate_line list \<Rightarrow> int list" where
  "added_lines cnode annotate =
     map (\<lambda>line. lineno line - 1) (filter (\<lambda>line. node line = cnode) annotate)"

text \<open>
  The dictionary stored for a path; its three sums are evaluated in the order of the
  source, and the first that raises ends the evaluation.
\<close>

definition path_stats :: "int list \<Rightarrow> string \<Rightarrow> error + path_result" where
  "path_stats added coverage_str =
     (case sum_lines (\<lambda>c. c \<noteq> CHR ''N'') coverage_str added 0 of
        Inl e \<Rightarrow> Inl e
      | Inr n_added \<Rightarrow>
          (case sum_lines (\<lambda>c. c = CHR ''X'') coverage_str added 0 of
             Inl e \<Rightarrow> Inl e
           | Inr n_unknown \<Rightarrow>
               (case sum_lines (\<lambda>c. c = CHR ''C'') coverage_str added 0 of
                  Inl e \<Rightarrow> Inl e
                | Inr n_covered \<Rightarrow>
                    Inr \<lparr>lines_added = n_added, lines_unknown = n_unknown,
                         lines_covered = n_covered, coverage = coverage_str\<rparr>)))"

text \<open>
  The count of the specification, for comparison with \<open>sum_lines\<close>: the number of
  added-line indices that are within the bounds of the classification string and whose
  symbol passes the test.
\<close>

definition count_within :: "(char \<Rightarrow> bool) \<Rightarrow> string \<Rightarrow> int list \<Rightarrow> nat" where
  "count_within test coverage_str added =
     length (filter (\<lambda>line. 0 \<le> line \<and> line < int (length coverage_str) \<and>
                             test (coverage_str ! nat line)) added)"

text \<open>\<^verbatim>\<open>results[changeset["node"]]["paths"][path] = stats\<close>.\<close>

definition store_path :: "results \<Rightarrow> string \<Rightarrow> string \<Rightarrow> path_result \<Rightarrow> error + results" where
  "store_path results cnode path stats =
     (case results cnode of
        None \<Rightarrow> Inl KeyError
      | Some entry \<Rightarrow>
          Inr (results(cnode \<mapsto> entry\<lparr>paths := (paths entry)(path \<mapsto> stats)\<rparr>)))"

text \<open>
  The body of the loop over \<^verbatim>\<open>changeset["files"]\<close>, for one path. The two
  \<^verbatim>\<open>continue\<close> statements return the results unchanged. When the build changeset
  has no annotate data, \<^verbatim>\<open>assert False\<close> raises \<^verbatim>\<open>AssertionError\<close>. (With
  assertions switched off the loop of \<^verbatim>\<open>_build_coverage_map\<close> would iterate over
  \<open>None\<close> and raise as well; the model has the assertion.)
\<close>

definition process_path ::
  "hgmo \<Rightarrow> string \<Rightarrow> report \<Rightarrow> string \<Rightarrow> string \<Rightarrow> results \<Rightarrow> error + results" where
  "process_path get_annotate revision report cnode path results =
     (case find_coverage report path of
        Inl e \<Rightarrow> Inl e
      | Inr None \<Rightarrow> Inr results
      | Inr (Some coverage_record) \<Rightarrow>
          (case get_annotate revision path of
             None \<Rightarrow> Inl AssertionError
           | Some build_annotate \<Rightarrow>
               (case build_coverage_map build_annotate coverage_record of
                  Inl e \<Rightarrow> Inl e
                | Inr coverage_map \<Rightarrow>
                    (case get_annotate cnode path of
                       None \<Rightarrow> Inr results
                     | Some annotate \<Rightarrow>
                         (case path_stats (added_lines cnode annotate)
                                 (apply_coverage_map annotate coverage_map) of
                            Inl e \<Rightarrow> Inl e
                          | Inr stats \<Rightarrow> store_path results cnode path stats)))))"


text \<open>The loop over the paths of one changeset, and the loop over the changesets.\<close>

fun process_files ::
  "hgmo \<Rightarrow> string \<Rightarrow> report \<Rightarrow> string \<Rightarrow> string list \<Rightarrow> results \<Rightarrow> error + results" where
  "process_files get_annotate revision report cnode [] results = Inr results"
| "process_files get_annotate revision report cnode (path # rest) results =
     (case process_path get_annotate revision report cnode path results of
        Inl e \<Rightarrow> Inl e
      | Inr results' \<Rightarrow> process_files get_annotate revision report cnode rest results')"

fun generate_loop ::
  "hgmo \<Rightarrow> string \<Rightarrow> report \<Rightarrow> changeset list \<Rightarrow> results \<Rightarrow> error + results" where
  "generate_loop get_annotate revision report [] results = Inr results"
| "generate_loop get_annotate revision report (cs # rest) results =
     (case parse_revision_id (desc cs) of
        None \<Rightarrow> generate_loop get_annotate revision report rest results
      | Some rid \<Rightarrow>
          (case process_files get_annotate revision report (changeset_node cs) (files cs)
                  (results(changeset_node cs \<mapsto> \<lparr>revision_id = rid, paths = Map.empty\<rparr>)) of
             Inl e \<Rightarrow> Inl e
           | Inr results' \<Rightarrow> generate_loop get_annotate revision report rest results'))"

definition generate :: "hgmo \<Rightarrow> string \<Rightarrow> report \<Rightarrow> changeset list \<Rightarrow> error + results" where
  "generate get_annotate revision report changesets =
     generate_loop get_annotate revision report changesets Map.empty"

section \<open>The classification string\<close>

lemma apply_coverage_map_loop_map:
  "apply_coverage_map_loop annotate coverage_map acc = acc @ map (classify coverage_map) annotate"
  by (induction annotate arbitrary: acc) simp_all

lemma apply_coverage_map_map:
  "apply_coverage_map annotate coverage_map = map (classify coverage_map) annotate"
  by (simp add: apply_coverage_map_def apply_coverage_map_loop_map)

text \<open>
  C1. \<^verbatim>\<open>_apply_coverage_map\<close> handles the records in their order and appends one
  symbol for each: the output has one symbol per record, the output for records that
  follow is appended to the output for those before, and the symbol at position \<open>i\<close> is \<open>X\<close> when the key of
  record \<open>i\<close> is not in the map, \<open>N\<close> when its value is \<open>-1\<close>, \<open>C\<close> when the
  value is positive, and \<open>U\<close> when the value is zero or negative other than \<open>-1\<close>.
  With the empty map every symbol is \<open>X\<close>.
\<close>

theorem apply_coverage_map_symbols:
  "length (apply_coverage_map annotate coverage_map) = length annotate \<and>
   apply_coverage_map (annotate @ later) coverage_map
     = apply_coverage_map annotate coverage_map @ apply_coverage_map later coverage_map \<and>
   (\<forall>i < length annotate.
      (coverage_map (node (annotate ! i), targetline (annotate ! i)) = None
         \<longrightarrow> apply_coverage_map annotate coverage_map ! i = CHR ''X'') \<and>
      (coverage_map (node (annotate ! i), targetline (annotate ! i)) = Some (- 1)
         \<longrightarrow> apply_coverage_map annotate coverage_map ! i = CHR ''N'') \<and>
      (\<forall>count. coverage_map (node (annotate ! i), targetline (annotate ! i)) = Some count \<and> 0 < count
         \<longrightarrow> apply_coverage_map annotate coverage_map ! i = CHR ''C'') \<and>
      (\<forall>count. coverage_map (node (annotate ! i), targetline (annotate ! i)) = Some count
                \<and> count \<le> 0 \<and> count \<noteq> - 1
         \<longrightarrow> apply_coverage_map annotate coverage_map ! i = CHR ''U'')) \<and>
   apply_coverage_map annotate Map.empty = replicate (length annotate) (CHR ''X'')"
proof -
  have "map (classify Map.empty) annotate = replicate (length annotate) (CHR ''X'')"
    by (induction annotate) (simp_all add: classify_def)
  then show ?thesis
    by (simp add: apply_coverage_map_map classify_def coverage_key_def)
qed

text \<open>All four symbols on one input.\<close>

theorem apply_coverage_map_symbols_witness:
  "apply_coverage_map
     [\<lparr>lineno = 1, targetline = 1, node = ''r0''\<rparr>, \<lparr>lineno = 2, targetline = 2, node = ''r0''\<rparr>,
      \<lparr>lineno = 3, targetline = 1, node = ''r1''\<rparr>, \<lparr>lineno = 4, targetline = 3, node = ''r0''\<rparr>,
      \<lparr>lineno = 5, targetline = 4, node = ''r0''\<rparr>, \<lparr>lineno = 6, targetline = 5, node = ''r0''\<rparr>]
     [(''r0'', 1) \<mapsto> - 1, (''r0'', 2) \<mapsto> 3, (''r0'', 3) \<mapsto> 0, (''r0'', 4) \<mapsto> - 2, (''r0'', 5) \<mapsto> 1]
   = ''NCXUUC''"
  using apply_coverage_map_symbols
    [of "[\<lparr>lineno = 1, targetline = 1, node = ''r0''\<rparr>, \<lparr>lineno = 2, targetline = 2, node = ''r0''\<rparr>,
      \<lparr>lineno = 3, targetline = 1, node = ''r1''\<rparr>, \<lparr>lineno = 4, targetline = 3, node = ''r0''\<rparr>,
      \<lparr>lineno = 5, targetline = 4, node = ''r0''\<rparr>, \<lparr>lineno = 6, targetline = 5, node = ''r0''\<rparr>]"
     "[(''r0'', 1) \<mapsto> - 1, (''r0'', 2) \<mapsto> 3, (''r0'', 3) \<mapsto> 0, (''r0'', 4) \<mapsto> - 2, (''r0'', 5) \<mapsto> 1]"
     "[]"]
  by (simp add: apply_coverage_map_map classify_def coverage_key_def)

text \<open>
  C2. The classification string returned by \<^verbatim>\<open>_apply_coverage_map\<close> is as long
  as the annotate data it was given, whatever the map.
\<close>

theorem apply_coverage_map_length:
  "length (apply_coverage_map annotate coverage_map) = length annotate"
  by (simp add: apply_coverage_map_map)

section \<open>The coverage map\<close>

lemma py_getitem_in_range:
  "0 \<le> i \<Longrightarrow> i < int (length xs) \<Longrightarrow> py_getitem xs i = Inr (xs ! nat i)"
  by (simp add: py_getitem_def)

lemma build_coverage_map_loop_append:
  "build_coverage_map_loop (xs @ ys) cr m0 =
     (case build_coverage_map_loop xs cr m0 of
        Inl e \<Rightarrow> Inl e
      | Inr m \<Rightarrow> build_coverage_map_loop ys cr m)"
  by (induction xs arbitrary: m0) (simp_all split: sum.splits)

lemma build_coverage_map_loop_other_key:
  "build_coverage_map_loop annotate cr m0 = Inr m \<Longrightarrow> k \<notin> coverage_key ` set annotate
     \<Longrightarrow> m k = m0 k"
proof (induction annotate arbitrary: m0)
  case Nil
  then show ?case by simp
next
  case (Cons data annotate)
  then show ?case
    by (auto split: if_splits sum.splits)
qed

lemma build_coverage_map_loop_entry:
  "build_coverage_map_loop annotate cr m0 = Inr m \<Longrightarrow> distinct (map coverage_key annotate)
     \<Longrightarrow> data \<in> set annotate \<Longrightarrow> 0 \<le> lineno data - 1 \<Longrightarrow> lineno data - 1 < int (length cr)
     \<Longrightarrow> m (coverage_key data) = Some (cr ! nat (lineno data - 1))"
proof (induction annotate arbitrary: m0)
  case Nil
  then show ?case by simp
next
  case (Cons d annotate)
  show ?case
  proof (cases "data = d")
    case True
    from Cons.prems(1,4,5) True obtain
      rest: "build_coverage_map_loop annotate cr (m0(coverage_key d \<mapsto> cr ! nat (lineno d - 1))) = Inr m"
      by (simp add: py_getitem_in_range)
    from Cons.prems(2) have "coverage_key d \<notin> coverage_key ` set annotate" by simp
    with rest have "m (coverage_key d) = (m0(coverage_key d \<mapsto> cr ! nat (lineno d - 1))) (coverage_key d)"
      by (rule build_coverage_map_loop_other_key)
    with True show ?thesis by simp
  next
    case False
    with Cons.prems(3) have mem: "data \<in> set annotate" by simp
    from Cons.prems(2) have dist: "distinct (map coverage_key annotate)" by simp
    from Cons.prems(1) obtain m1 where "build_coverage_map_loop annotate cr m1 = Inr m"
      by (auto split: if_splits sum.splits)
    from Cons.IH[OF this dist mem Cons.prems(4,5)] show ?thesis .
  qed
qed

lemma build_coverage_map_loop_one_based:
  "\<forall>data\<in>set annotate. 1 \<le> lineno data \<Longrightarrow>
   \<exists>m. build_coverage_map_loop annotate cr m0 = Inr m \<and>
       dom m = dom m0 \<union> coverage_key ` {data \<in> set annotate. lineno data - 1 < int (length cr)}"
proof (induction annotate arbitrary: m0)
  case Nil
  then show ?case by simp
next
  case (Cons d annotate)
  then have rest: "\<forall>data\<in>set annotate. 1 \<le> lineno data" and d: "0 \<le> lineno d - 1" by simp_all
  have split: "{data \<in> set (d # annotate). lineno data - 1 < int (length cr)} =
      (if lineno d - 1 < int (length cr) then {d} else {}) \<union>
      {data \<in> set annotate. lineno data - 1 < int (length cr)}"
    by auto
  show ?case
  proof (cases "lineno d - 1 < int (length cr)")
    case True
    from Cons.IH[OF rest, of "m0(coverage_key d \<mapsto> cr ! nat (lineno d - 1))"]
    obtain m where m: "build_coverage_map_loop annotate cr (m0(coverage_key d \<mapsto> cr ! nat (lineno d - 1))) = Inr m"
      and dm: "dom m = dom (m0(coverage_key d \<mapsto> cr ! nat (lineno d - 1))) \<union>
          coverage_key ` {data \<in> set annotate. lineno data - 1 < int (length cr)}"
      by blast
    from m True d have "build_coverage_map_loop (d # annotate) cr m0 = Inr m"
      by (simp add: py_getitem_in_range)
    moreover from dm True have "dom m = dom m0 \<union>
        coverage_key ` {data \<in> set (d # annotate). lineno data - 1 < int (length cr)}"
      unfolding split by auto
    ultimately show ?thesis by blast
  next
    case False
    from Cons.IH[OF rest, of m0]
    obtain m where m: "build_coverage_map_loop annotate cr m0 = Inr m"
      and dm: "dom m = dom m0 \<union> coverage_key ` {data \<in> set annotate. lineno data - 1 < int (length cr)}"
      by blast
    from m False have "build_coverage_map_loop (d # annotate) cr m0 = Inr m" by simp
    moreover from dm False have "dom m = dom m0 \<union>
        coverage_key ` {data \<in> set (d # annotate). lineno data - 1 < int (length cr)}"
      unfolding split by simp
    ultimately show ?thesis by blast
  qed
qed

text \<open>
  C4. The visible line numbers of annotate data are 1-based: every \<open>lineno\<close> is at
  least 1. For such annotate data and any coverage record,
  \<^verbatim>\<open>_build_coverage_map\<close> returns a map and never raises; the keys of the map
  are the keys of the records whose 0-based line \<open>lineno - 1\<close> is within the coverage
  record; and a further record at the end adds the entry
  \<open>key \<mapsto> coverage_record[lineno - 1]\<close> when its line is within the coverage
  record, and is dropped, leaving the map as it is, otherwise.
\<close>

theorem build_coverage_map_one_based:
  assumes "\<forall>line\<in>set annotate. 1 \<le> lineno line" and "1 \<le> lineno data"
  shows "\<exists>m. build_coverage_map annotate coverage_record = Inr m \<and>
    dom m = set (map coverage_key
                  (filter (\<lambda>line. lineno line - 1 < int (length coverage_record)) annotate)) \<and>
    build_coverage_map (annotate @ [data]) coverage_record =
      Inr (if lineno data - 1 < int (length coverage_record)
           then m(coverage_key data \<mapsto> coverage_record ! nat (lineno data - 1)) else m)"
proof -
  from build_coverage_map_loop_one_based[OF assms(1), of coverage_record Map.empty]
  obtain m where m: "build_coverage_map_loop annotate coverage_record Map.empty = Inr m"
    and d: "dom m = coverage_key ` {line \<in> set annotate. lineno line - 1 < int (length coverage_record)}"
    by auto
  from assms(2) have "0 \<le> lineno data - 1" by simp
  then have "build_coverage_map_loop (annotate @ [data]) coverage_record Map.empty =
      Inr (if lineno data - 1 < int (length coverage_record)
           then m(coverage_key data \<mapsto> coverage_record ! nat (lineno data - 1)) else m)"
    by (simp add: build_coverage_map_loop_append m py_getitem_in_range)
  with m d show ?thesis by (simp add: build_coverage_map_def)
qed

text \<open>Two records, the second beyond the coverage record, then a third within it.\<close>

theorem build_coverage_map_one_based_witness:
  "\<exists>m. build_coverage_map [\<lparr>lineno = 1, targetline = 7, node = ''r0''\<rparr>,
         \<lparr>lineno = 3, targetline = 2, node = ''r1''\<rparr>] [4, 0] = Inr m \<and>
    dom m = {(''r0'', 7)} \<and>
    build_coverage_map [\<lparr>lineno = 1, targetline = 7, node = ''r0''\<rparr>,
      \<lparr>lineno = 3, targetline = 2, node = ''r1''\<rparr>,
      \<lparr>lineno = 2, targetline = 1, node = ''r2''\<rparr>] [4, 0] = Inr (m((''r2'', 1) \<mapsto> 0))"
  using build_coverage_map_one_based
    [of "[\<lparr>lineno = 1, targetline = 7, node = ''r0''\<rparr>, \<lparr>lineno = 3, targetline = 2, node = ''r1''\<rparr>]"
        "\<lparr>lineno = 2, targetline = 1, node = ''r2''\<rparr>" "[4, 0]"]
  by (simp add: coverage_key_def)

lemma raw_classification_not_X: "raw_classification count \<noteq> CHR ''X''"
  by (simp add: raw_classification_def)

text \<open>
  C3. Build and target revision coincide, and the keys of the annotate data are
  pairwise distinct. Then the map built from the annotate data and a coverage record,
  applied to the same annotate data, gives every line whose visible line number is
  within the coverage record the symbol of its own raw count, which is never \<open>X\<close>.
  The map exists whenever the visible line numbers start from 1.
\<close>

theorem identity_mapping:
  assumes "distinct (map coverage_key annotate)"
  shows "((\<forall>line\<in>set annotate. 1 \<le> lineno line)
            \<longrightarrow> (\<exists>m. build_coverage_map annotate coverage_record = Inr m)) \<and>
         (\<forall>m i. build_coverage_map annotate coverage_record = Inr m \<and> i < length annotate \<and>
                1 \<le> lineno (annotate ! i) \<and> lineno (annotate ! i) - 1 < int (length coverage_record)
            \<longrightarrow> apply_coverage_map annotate m ! i
                  = raw_classification (coverage_record ! nat (lineno (annotate ! i) - 1)) \<and>
                apply_coverage_map annotate m ! i \<noteq> CHR ''X'')"
proof -
  have returns: "\<exists>m. build_coverage_map annotate coverage_record = Inr m"
    if "\<forall>line\<in>set annotate. 1 \<le> lineno line"
    using build_coverage_map_loop_one_based[OF that, of coverage_record Map.empty]
    by (auto simp: build_coverage_map_def)
  have identity: "apply_coverage_map annotate m ! i
      = raw_classification (coverage_record ! nat (lineno (annotate ! i) - 1)) \<and>
    apply_coverage_map annotate m ! i \<noteq> CHR ''X''"
    if a: "build_coverage_map annotate coverage_record = Inr m \<and> i < length annotate \<and>
    1 \<le> lineno (annotate ! i) \<and> lineno (annotate ! i) - 1 < int (length coverage_record)"
    for m i
  proof -
    from a have loop: "build_coverage_map_loop annotate coverage_record Map.empty = Inr m"
      by (simp add: build_coverage_map_def)
    from a have mem: "annotate ! i \<in> set annotate" and lo: "0 \<le> lineno (annotate ! i) - 1"
      and hi: "lineno (annotate ! i) - 1 < int (length coverage_record)"
      by simp_all
    have entry: "m (coverage_key (annotate ! i)) = Some (coverage_record ! nat (lineno (annotate ! i) - 1))"
      by (rule build_coverage_map_loop_entry[OF loop assms mem lo hi])
    from a have "apply_coverage_map annotate m ! i = classify m (annotate ! i)"
      by (simp add: apply_coverage_map_map)
    with entry have eq: "apply_coverage_map annotate m ! i
        = raw_classification (coverage_record ! nat (lineno (annotate ! i) - 1))"
      by (simp add: classify_def raw_classification_def)
    then show ?thesis
      by (simp add: raw_classification_not_X)
  qed
  from returns identity show ?thesis by blast
qed

text \<open>Three lines within a coverage record of length three, and a fourth beyond it.\<close>

theorem identity_mapping_witness:
  "\<exists>m. build_coverage_map
         [\<lparr>lineno = 1, targetline = 1, node = ''r0''\<rparr>, \<lparr>lineno = 2, targetline = 1, node = ''r1''\<rparr>,
          \<lparr>lineno = 3, targetline = 2, node = ''r0''\<rparr>, \<lparr>lineno = 4, targetline = 3, node = ''r0''\<rparr>]
         [- 1, 2, 0] = Inr m \<and>
       apply_coverage_map
         [\<lparr>lineno = 1, targetline = 1, node = ''r0''\<rparr>, \<lparr>lineno = 2, targetline = 1, node = ''r1''\<rparr>,
          \<lparr>lineno = 3, targetline = 2, node = ''r0''\<rparr>, \<lparr>lineno = 4, targetline = 3, node = ''r0''\<rparr>]
         m = ''NCUX''"
  using identity_mapping
    [of "[\<lparr>lineno = 1, targetline = 1, node = ''r0''\<rparr>, \<lparr>lineno = 2, targetline = 1, node = ''r1''\<rparr>,
          \<lparr>lineno = 3, targetline = 2, node = ''r0''\<rparr>, \<lparr>lineno = 4, targetline = 3, node = ''r0''\<rparr>]"
        "[- 1, 2, 0]"]
  by (simp add: build_coverage_map_def py_getitem_def coverage_key_def apply_coverage_map_map
        classify_def)

section \<open>The path coverage locator\<close>

lemma split_slash_nonempty: "split_slash path \<noteq> []"
  by (induction path) (auto split: list.splits)

lemma join_slash_Cons: "parts \<noteq> [] \<Longrightarrow> join_slash (part # parts) = part @ CHR ''/'' # join_slash parts"
  by (cases parts) simp_all

lemma join_slash_split_slash: "join_slash (split_slash path) = path"
proof (induction path)
  case Nil
  then show ?case by simp
next
  case (Cons c cs)
  show ?case
  proof (cases "c = CHR ''/''")
    case True
    with Cons show ?thesis by (simp add: join_slash_Cons split_slash_nonempty)
  next
    case False
    obtain part parts where sp: "split_slash cs = part # parts"
      using split_slash_nonempty[of cs] by (cases "split_slash cs") auto
    with Cons False show ?thesis by (cases parts) auto
  qed
qed

lemma split_slash_no_slash: "part \<in> set (split_slash path) \<Longrightarrow> CHR ''/'' \<notin> set part"
  by (induction path arbitrary: part) (auto split: if_splits list.splits)

lemma find_coverage_parts_not_found:
  "find_coverage_parts report parts = Inr None \<longleftrightarrow>
     (\<exists>before part after current children.
        parts = before @ part # after \<and> descend report before = Some current \<and>
        report_children current = Some children \<and> children part = None)"
proof (induction parts arbitrary: report)
  case Nil
  then show ?case by (simp split: option.splits)
next
  case (Cons p ps)
  show ?case
  proof (cases "report_children report")
    case None
    then show ?thesis by (auto simp: Cons_eq_append_conv)
  next
    case (Some children)
    show ?thesis
    proof (cases "children p")
      case None
      with Some have "find_coverage_parts report (p # ps) = Inr None" by simp
      moreover from Some None have "p # ps = [] @ p # ps \<and> descend report [] = Some report \<and>
        report_children report = Some children \<and> children p = None" by simp
      ultimately show ?thesis by blast
    next
      case child: (Some child)
      have step: "find_coverage_parts report (p # ps) = find_coverage_parts child ps"
        using Some child by simp
      show ?thesis
      proof
        assume "find_coverage_parts report (p # ps) = Inr None"
        with step Cons.IH[of child] obtain before part after current children'
          where "ps = before @ part # after" "descend child before = Some current"
            "report_children current = Some children'" "children' part = None"
          by auto
        with Some child have "p # ps = (p # before) @ part # after \<and>
          descend report (p # before) = Some current \<and>
          report_children current = Some children' \<and> children' part = None"
          by simp
        then show "\<exists>before part after current children.
          p # ps = before @ part # after \<and> descend report before = Some current \<and>
          report_children current = Some children \<and> children part = None"
          by blast
      next
        assume "\<exists>before part after current children.
          p # ps = before @ part # after \<and> descend report before = Some current \<and>
          report_children current = Some children \<and> children part = None"
        then obtain before part after current children'
          where eq: "p # ps = before @ part # after" and d: "descend report before = Some current"
            and c: "report_children current = Some children'" and n: "children' part = None"
          by blast
        have "before \<noteq> []"
        proof
          assume "before = []"
          with eq d c n Some child show False by simp
        qed
        then obtain before' where b: "before = p # before'" and ps: "ps = before' @ part # after"
          using eq by (cases before) auto
        from d b Some child have "descend child before' = Some current" by simp
        with ps c n Cons.IH[of child] have "find_coverage_parts child ps = Inr None" by blast
        with step show "find_coverage_parts report (p # ps) = Inr None" by simp
      qed
    qed
  qed
qed


lemma find_coverage_parts_found:
  "find_coverage_parts report parts = Inr (Some coverage_record) \<longleftrightarrow>
     (\<exists>leaf. descend report parts = Some leaf \<and> report_coverage leaf = Some coverage_record)"
  by (induction parts arbitrary: report) (auto split: option.splits)

lemma find_coverage_parts_raises:
  "find_coverage_parts report parts = Inl e \<longleftrightarrow>
     e = KeyError \<and>
     ((\<exists>leaf. descend report parts = Some leaf \<and> report_coverage leaf = None) \<or>
      (\<exists>before part after current.
         parts = before @ part # after \<and> descend report before = Some current \<and>
         report_children current = None))"
proof (induction parts arbitrary: report)
  case Nil
  then show ?case by (auto split: option.splits)
next
  case (Cons p ps)
  show ?case
  proof (cases "report_children report")
    case None
    then have "p # ps = [] @ p # ps \<and> descend report [] = Some report \<and> report_children report = None"
      by simp
    then have "\<exists>before part after current.
         p # ps = before @ part # after \<and> descend report before = Some current \<and>
         report_children current = None" by blast
    with None show ?thesis by auto
  next
    case (Some children)
    show ?thesis
    proof (cases "children p")
      case None
      have "\<not> (\<exists>before part after current.
         p # ps = before @ part # after \<and> descend report before = Some current \<and>
         report_children current = None)"
      proof
        assume "\<exists>before part after current.
         p # ps = before @ part # after \<and> descend report before = Some current \<and>
         report_children current = None"
        then obtain before part after current
          where eq: "p # ps = before @ part # after" and d: "descend report before = Some current"
            and c: "report_children current = None" by blast
        show False
        proof (cases before)
          case Nil
          with d c Some show False by simp
        next
          case (Cons b bs)
          with eq d Some None show False by simp
        qed
      qed
      with Some None show ?thesis by auto
    next
      case child: (Some child)
      have step: "find_coverage_parts report (p # ps) = find_coverage_parts child ps"
        and dstep: "descend report (p # ps) = descend child ps"
        using Some child by simp_all
      have "(\<exists>before part after current.
         p # ps = before @ part # after \<and> descend report before = Some current \<and>
         report_children current = None) \<longleftrightarrow>
        (\<exists>before part after current.
         ps = before @ part # after \<and> descend child before = Some current \<and>
         report_children current = None)" (is "?L \<longleftrightarrow> ?R")
      proof
        assume ?L
        then obtain before part after current
          where eq: "p # ps = before @ part # after" and d: "descend report before = Some current"
            and c: "report_children current = None" by blast
        have "before \<noteq> []"
        proof
          assume "before = []"
          with d c Some show False by simp
        qed
        then obtain before' where b: "before = p # before'" and ps: "ps = before' @ part # after"
          using eq by (cases before) auto
        from d b Some child have "descend child before' = Some current" by simp
        with ps c show ?R by blast
      next
        assume ?R
        then obtain before part after current
          where "ps = before @ part # after" "descend child before = Some current"
            "report_children current = None" by blast
        with Some child have "p # ps = (p # before) @ part # after \<and>
          descend report (p # before) = Some current \<and> report_children current = None"
          by simp
        then show ?L by blast
      qed
      with step dstep Cons.IH[of child] show ?thesis by simp
    qed
  qed
qed


text \<open>
  What \<^verbatim>\<open>_find_coverage\<close> computes. It splits the path on \<open>/\<close> (the pieces
  have no slash and joined by slashes they give the path back), drops the empty pieces,
  and descends the report one segment at a time. It returns \<open>None\<close> exactly when
  some segment is missing among the children of the node reached before it, whatever
  follows that segment, and a coverage record exactly when every segment is found and
  the node reached at the end has one. In every other case a subscript of the code
  meets a missing key.
\<close>

lemma find_coverage_outcomes:
  "join_slash (split_slash path) = path \<and>
   (\<forall>part\<in>set (split_slash path). CHR ''/'' \<notin> set part) \<and>
   path_parts path = filter (\<lambda>part. part \<noteq> []) (split_slash path) \<and>
   (find_coverage report path = Inr None \<longleftrightarrow>
      (\<exists>before part after current children.
         path_parts path = before @ part # after \<and> descend report before = Some current \<and>
         report_children current = Some children \<and> children part = None)) \<and>
   (\<forall>coverage_record.
      find_coverage report path = Inr (Some coverage_record) \<longleftrightarrow>
      (\<exists>leaf. descend report (path_parts path) = Some leaf \<and>
             report_coverage leaf = Some coverage_record)) \<and>
   (\<forall>e. find_coverage report path = Inl e \<longleftrightarrow>
      e = KeyError \<and>
      ((\<exists>leaf. descend report (path_parts path) = Some leaf \<and> report_coverage leaf = None) \<or>
       (\<exists>before part after current.
          path_parts path = before @ part # after \<and> descend report before = Some current \<and>
          report_children current = None)))"
  unfolding find_coverage_def
  using join_slash_split_slash[of path] split_slash_no_slash[of _ path]
    find_coverage_parts_not_found[of report "path_parts path"]
    find_coverage_parts_found[of report "path_parts path"]
    find_coverage_parts_raises[of report "path_parts path"]
  by (simp add: path_parts_def)

text \<open>A file found through empty segments, and a path whose first segment is missing.\<close>

lemma find_coverage_outcomes_example:
  "find_coverage
     (Report (Some [''src'' \<mapsto> Report (Some [''a.c'' \<mapsto> Report None (Some [- 1, 2, 0])]) None]) None)
     ''/src//a.c'' = Inr (Some [- 1, 2, 0]) \<and>
   find_coverage
     (Report (Some [''src'' \<mapsto> Report (Some [''a.c'' \<mapsto> Report None (Some [- 1, 2, 0])]) None]) None)
     ''lib/b.c'' = Inr None"
  using find_coverage_outcomes
    [of "''/src//a.c''"
        "Report (Some [''src'' \<mapsto> Report (Some [''a.c'' \<mapsto> Report None (Some [- 1, 2, 0])]) None]) None"]
  by (simp add: find_coverage_def path_parts_def)

text \<open>
  C9. The locator is to return, for every report and every path, either the coverage
  record at the node reached or "not found", without raising. The code does so where
  a segment is missing among the children of a directory: \<open>b.c/x\<close> below is not
  found. It does not where the node it stands on is a file of the report, which has no
  \<^verbatim>\<open>"children"\<close>: for \<open>a.c/x\<close> the test
  \<^verbatim>\<open>part not in report["children"]\<close> raises \<^verbatim>\<open>KeyError\<close> although the
  segment \<open>x\<close> is as absent as before. Nor does it where the path ends at a directory
  of the report, which has no \<^verbatim>\<open>"coverage"\<close>: for \<open>src\<close> the final
  \<^verbatim>\<open>report["coverage"]\<close> raises \<^verbatim>\<open>KeyError\<close>.
\<close>

theorem find_coverage_key_error:
  "find_coverage (Report (Some [''a.c'' \<mapsto> Report None (Some [1])]) None) ''b.c/x''
     = Inr None \<and>
   find_coverage (Report (Some [''a.c'' \<mapsto> Report None (Some [1])]) None) ''a.c/x''
     = Inl KeyError \<and>
   find_coverage (Report (Some [''src'' \<mapsto> Report (Some Map.empty) None]) None) ''src''
     = Inl KeyError"
  by (simp add: find_coverage_def path_parts_def)

section \<open>Statistics of one path\<close>

lemma sum_lines_count_within:
  "\<forall>line\<in>set lines. 0 \<le> line \<Longrightarrow>
   sum_lines test coverage_str lines acc = Inr (acc + count_within test coverage_str lines)"
proof (induction lines arbitrary: acc)
  case Nil
  then show ?case by (simp add: count_within_def)
next
  case (Cons line lines)
  then have rest: "\<forall>line\<in>set lines. 0 \<le> line" and nonneg: "0 \<le> line" by simp_all
  have tail: "count_within test coverage_str (line # lines) =
      (if line < int (length coverage_str) \<and> test (coverage_str ! nat line) then 1 else 0)
      + count_within test coverage_str lines"
    using nonneg by (simp add: count_within_def)
  show ?case
  proof (cases "line < int (length coverage_str)")
    case True
    with nonneg have "py_getitem coverage_str line = Inr (coverage_str ! nat line)"
      by (simp add: py_getitem_in_range)
    with True Cons.IH[OF rest] tail show ?thesis by simp
  next
    case False
    with Cons.IH[OF rest] tail show ?thesis by simp
  qed
qed

lemma added_lines_nonneg:
  "\<forall>line\<in>set annotate. 1 \<le> lineno line \<Longrightarrow> \<forall>line\<in>set (added_lines cnode annotate). 0 \<le> line"
  by (auto simp: added_lines_def)

lemma path_stats_count_within:
  "\<forall>line\<in>set added. 0 \<le> line \<Longrightarrow>
   path_stats added coverage_str =
     Inr \<lparr>lines_added = count_within (\<lambda>c. c \<noteq> CHR ''N'') coverage_str added,
          lines_unknown = count_within (\<lambda>c. c = CHR ''X'') coverage_str added,
          lines_covered = count_within (\<lambda>c. c = CHR ''C'') coverage_str added,
          coverage = coverage_str\<rparr>"
  by (simp add: path_stats_def sum_lines_count_within)

lemma added_lines_positions:
  assumes "\<forall>i<length annotate. lineno (annotate ! i) = int i + 1"
  shows "added_lines cnode annotate =
     map int (filter (\<lambda>i. node (annotate ! i) = cnode) [0..<length annotate])"
proof -
  have "annotate = map (\<lambda>i. annotate ! i) [0..<length annotate]"
    by (simp add: map_nth)
  then have "added_lines cnode annotate =
      map (\<lambda>line. lineno line - 1)
        (filter (\<lambda>line. node line = cnode) (map (\<lambda>i. annotate ! i) [0..<length annotate]))"
    by (simp add: added_lines_def)
  also have "\<dots> = map (\<lambda>i. lineno (annotate ! i) - 1)
      (filter (\<lambda>i. node (annotate ! i) = cnode) [0..<length annotate])"
    by (simp add: filter_map comp_def)
  also have "\<dots> = map int (filter (\<lambda>i. node (annotate ! i) = cnode) [0..<length annotate])"
    using assms by (intro map_cong) auto
  finally show ?thesis .
qed

text \<open>
  C6. A pair of changeset and path that gets as far as a classification string: the
  path has a coverage record, the build changeset has annotate data from which the map
  is built, and the changeset itself has annotate data, with visible line numbers from
  1. The added lines are then the 0-based line numbers \<open>lineno - 1\<close> of the records
  whose node is the node of the changeset (the positions of these records, when the
  records are numbered in sequence), and the entry stored for the path counts, among
  the added lines that are within the classification string, those whose symbol is not
  \<open>N\<close> as \<open>lines_added\<close>, those whose symbol is \<open>X\<close> as \<open>lines_unknown\<close>, and
  those whose symbol is \<open>C\<close> as \<open>lines_covered\<close>.
\<close>

theorem process_path_statistics:
  assumes "find_coverage report path = Inr (Some coverage_record)"
    and "get_annotate revision path = Some build_annotate"
    and "build_coverage_map build_annotate coverage_record = Inr coverage_map"
    and "get_annotate cnode path = Some annotate"
    and "\<forall>line\<in>set annotate. 1 \<le> lineno line"
    and "results cnode = Some entry"
  shows "added_lines cnode annotate =
           map (\<lambda>line. lineno line - 1) (filter (\<lambda>line. node line = cnode) annotate) \<and>
         ((\<forall>i<length annotate. lineno (annotate ! i) = int i + 1) \<longrightarrow>
            added_lines cnode annotate =
              map int (filter (\<lambda>i. node (annotate ! i) = cnode) [0..<length annotate])) \<and>
         process_path get_annotate revision report cnode path results =
           Inr (results(cnode \<mapsto> entry\<lparr>paths := (paths entry)(path \<mapsto>
             \<lparr>lines_added = count_within (\<lambda>c. c \<noteq> CHR ''N'')
                 (apply_coverage_map annotate coverage_map) (added_lines cnode annotate),
              lines_unknown = count_within (\<lambda>c. c = CHR ''X'')
                 (apply_coverage_map annotate coverage_map) (added_lines cnode annotate),
              lines_covered = count_within (\<lambda>c. c = CHR ''C'')
                 (apply_coverage_map annotate coverage_map) (added_lines cnode annotate),
              coverage = apply_coverage_map annotate coverage_map\<rparr>)\<rparr>))"
proof -
  have stats: "path_stats (added_lines cnode annotate) (apply_coverage_map annotate coverage_map) =
     Inr \<lparr>lines_added = count_within (\<lambda>c. c \<noteq> CHR ''N'')
                 (apply_coverage_map annotate coverage_map) (added_lines cnode annotate),
          lines_unknown = count_within (\<lambda>c. c = CHR ''X'')
                 (apply_coverage_map annotate coverage_map) (added_lines cnode annotate),
          lines_covered = count_within (\<lambda>c. c = CHR ''C'')
                 (apply_coverage_map annotate coverage_map) (added_lines cnode annotate),
          coverage = apply_coverage_map annotate coverage_map\<rparr>"
    by (rule path_stats_count_within[OF added_lines_nonneg[OF assms(5)]])
  have "process_path get_annotate revision report cnode path results =
      store_path results cnode path
        \<lparr>lines_added = count_within (\<lambda>c. c \<noteq> CHR ''N'')
                 (apply_coverage_map annotate coverage_map) (added_lines cnode annotate),
          lines_unknown = count_within (\<lambda>c. c = CHR ''X'')
                 (apply_coverage_map annotate coverage_map) (added_lines cnode annotate),
          lines_covered = count_within (\<lambda>c. c = CHR ''C'')
                 (apply_coverage_map annotate coverage_map) (added_lines cnode annotate),
          coverage = apply_coverage_map annotate coverage_map\<rparr>"
    by (simp add: process_path_def assms(1-4) stats)
  with assms(6) added_lines_positions[of annotate cnode] show ?thesis
    by (simp add: store_path_def added_lines_def)
qed


text \<open>
  A changeset that added three lines, of which the build changeset still has two, one
  covered and one not.
\<close>

theorem process_path_statistics_witness:
  "process_path
     (\<lambda>rev path. if path = ''f.py'' \<and> rev = ''build'' then
          Some [\<lparr>lineno = 1, targetline = 1, node = ''r0''\<rparr>, \<lparr>lineno = 2, targetline = 1, node = ''r2''\<rparr>,
                \<lparr>lineno = 3, targetline = 2, node = ''r2''\<rparr>, \<lparr>lineno = 4, targetline = 2, node = ''r0''\<rparr>]
        else if path = ''f.py'' \<and> rev = ''r2'' then
          Some [\<lparr>lineno = 1, targetline = 1, node = ''r0''\<rparr>, \<lparr>lineno = 2, targetline = 1, node = ''r2''\<rparr>,
                \<lparr>lineno = 3, targetline = 2, node = ''r2''\<rparr>, \<lparr>lineno = 4, targetline = 3, node = ''r2''\<rparr>,
                \<lparr>lineno = 5, targetline = 2, node = ''r0''\<rparr>]
        else None)
     ''build'' (Report (Some [''f.py'' \<mapsto> Report None (Some [- 1, 3, 0, 1])]) None)
     ''r2'' ''f.py'' [''r2'' \<mapsto> \<lparr>revision_id = 7, paths = Map.empty\<rparr>]
   = Inr [''r2'' \<mapsto> \<lparr>revision_id = 7, paths = [''f.py'' \<mapsto>
        \<lparr>lines_added = 3, lines_unknown = 1, lines_covered = 1, coverage = ''NCUXC''\<rparr>]\<rparr>]"
proof -
  let ?build = "[\<lparr>lineno = 1, targetline = 1, node = ''r0''\<rparr>, \<lparr>lineno = 2, targetline = 1, node = ''r2''\<rparr>,
                \<lparr>lineno = 3, targetline = 2, node = ''r2''\<rparr>, \<lparr>lineno = 4, targetline = 2, node = ''r0''\<rparr>]"
  let ?target = "[\<lparr>lineno = 1, targetline = 1, node = ''r0''\<rparr>, \<lparr>lineno = 2, targetline = 1, node = ''r2''\<rparr>,
                \<lparr>lineno = 3, targetline = 2, node = ''r2''\<rparr>, \<lparr>lineno = 4, targetline = 3, node = ''r2''\<rparr>,
                \<lparr>lineno = 5, targetline = 2, node = ''r0''\<rparr>]"
  let ?hg = "\<lambda>rev path. if path = ''f.py'' \<and> rev = ''build'' then Some ?build
        else if path = ''f.py'' \<and> rev = ''r2'' then Some ?target else None"
  let ?report = "Report (Some [''f.py'' \<mapsto> Report None (Some [- 1, 3, 0, 1])]) None"
  let ?map = "[(''r0'', 1) \<mapsto> - 1, (''r2'', 1) \<mapsto> 3, (''r2'', 2) \<mapsto> 0, (''r0'', 2) \<mapsto> 1]"
  have found: "find_coverage ?report ''f.py'' = Inr (Some [- 1, 3, 0, 1])"
    by (simp add: find_coverage_def path_parts_def)
  have build: "?hg ''build'' ''f.py'' = Some ?build" by simp
  have built: "build_coverage_map ?build [- 1, 3, 0, 1] = Inr ?map"
    by (simp add: build_coverage_map_def py_getitem_def coverage_key_def)
  have target: "?hg ''r2'' ''f.py'' = Some ?target" by simp
  have one_based: "\<forall>line\<in>set ?target. 1 \<le> lineno line" by simp
  have entry: "[''r2'' \<mapsto> \<lparr>revision_id = 7, paths = Map.empty\<rparr>] ''r2''
      = Some \<lparr>revision_id = 7, paths = Map.empty\<rparr>" by simp
  have symbols: "apply_coverage_map ?target ?map = ''NCUXC''"
    by (simp add: apply_coverage_map_map classify_def coverage_key_def)
  have added: "added_lines ''r2'' ?target = [1, 2, 3]"
    by (simp add: added_lines_def)
  from process_path_statistics[where get_annotate = ?hg and revision = "''build''"
      and report = ?report and path = "''f.py''" and cnode = "''r2''"
      and results = "[''r2'' \<mapsto> \<lparr>revision_id = 7, paths = Map.empty\<rparr>]",
      OF found build built target one_based entry]
  show ?thesis
    unfolding symbols added by (simp add: count_within_def numeral_3_eq_3)
qed


section \<open>The batch\<close>

lemma process_files_raises:
  "path \<in> set paths_list \<Longrightarrow>
   (\<And>results. \<exists>e. process_path get_annotate revision report cnode path results = Inl e) \<Longrightarrow>
   \<exists>e. process_files get_annotate revision report cnode paths_list results = Inl e"
proof (induction paths_list arbitrary: results)
  case Nil
  then show ?case by simp
next
  case (Cons p ps)
  show ?case
  proof (cases "process_path get_annotate revision report cnode p results")
    case (Inl e)
    then show ?thesis by simp
  next
    case (Inr results')
    with Cons.prems(2)[of results] have "path \<noteq> p" by auto
    with Cons.prems(1) have "path \<in> set ps" by simp
    from Cons.IH[OF this Cons.prems(2), of results'] Inr show ?thesis by simp
  qed
qed

lemma generate_loop_raises:
  "cs \<in> set changesets \<Longrightarrow> parse_revision_id (desc cs) = Some rid \<Longrightarrow>
   (\<And>results. \<exists>e. process_files get_annotate revision report (changeset_node cs) (files cs) results = Inl e) \<Longrightarrow>
   \<exists>e. generate_loop get_annotate revision report changesets results = Inl e"
proof (induction changesets arbitrary: results)
  case Nil
  then show ?case by simp
next
  case (Cons c rest)
  show ?case
  proof (cases "c = cs")
    case True
    from Cons.prems(3)[of "results(changeset_node cs \<mapsto> \<lparr>revision_id = rid, paths = Map.empty\<rparr>)"]
    obtain e where "process_files get_annotate revision report (changeset_node cs) (files cs)
        (results(changeset_node cs \<mapsto> \<lparr>revision_id = rid, paths = Map.empty\<rparr>)) = Inl e"
      by blast
    with True Cons.prems(2) show ?thesis by simp
  next
    case False
    with Cons.prems(1) have mem: "cs \<in> set rest" by simp
    show ?thesis
    proof (cases "parse_revision_id (desc c)")
      case None
      with Cons.IH[OF mem Cons.prems(2,3), of results] show ?thesis by simp
    next
      case (Some rid')
      show ?thesis
      proof (cases "process_files get_annotate revision report (changeset_node c) (files c)
                      (results(changeset_node c \<mapsto> \<lparr>revision_id = rid', paths = Map.empty\<rparr>))")
        case (Inl e)
        with Some show ?thesis by simp
      next
        case (Inr results')
        with Some Cons.IH[OF mem Cons.prems(2,3), of results'] show ?thesis by simp
      qed
    qed
  qed
qed

text \<open>
  C7. A changeset with a review-request identifier has a path for which the report has
  a coverage record while the build changeset has no annotate data. Then the body of
  the loop raises for that path (the assertion fails, whatever has been accumulated),
  and \<^verbatim>\<open>generate\<close> as a whole raises: it returns no results, neither with the
  pair left out nor with part of its statistics.
\<close>

theorem generate_build_annotate_missing:
  assumes "cs \<in> set changesets"
    and "parse_revision_id (desc cs) = Some rid"
    and "path \<in> set (files cs)"
    and "find_coverage report path = Inr (Some coverage_record)"
    and "get_annotate revision path = None"
  shows "process_path get_annotate revision report (changeset_node cs) path results = Inl AssertionError \<and>
         (\<exists>e. generate get_annotate revision report changesets = Inl e)"
proof -
  have path_raises: "process_path get_annotate revision report (changeset_node cs) path r = Inl AssertionError"
    for r
    using assms(4,5) by (simp add: process_path_def)
  then have "\<exists>e. process_files get_annotate revision report (changeset_node cs) (files cs) r = Inl e"
    for r
    using process_files_raises[OF assms(3), of get_annotate revision report "changeset_node cs" r]
    by blast
  then have "\<exists>e. generate_loop get_annotate revision report changesets Map.empty = Inl e"
    using generate_loop_raises[OF assms(1,2), of get_annotate revision report Map.empty]
    by blast
  with path_raises show ?thesis by (simp add: generate_def)
qed

text \<open>A report with one file, and a service that has no annotate data at all.\<close>

theorem generate_build_annotate_missing_witness:
  "generate (\<lambda>rev path. None) ''build''
     (Report (Some [''a.c'' \<mapsto> Report None (Some [1, 0])]) None)
     [\<lparr>changeset_node = ''r1'',
       desc = ''Fix. Differential Revision: https://phabricator.services.mozilla.com/D42'',
       files = [''a.c'']\<rparr>]
   = Inl AssertionError"
proof -
  let ?cs = "\<lparr>changeset_node = ''r1'',
       desc = ''Fix. Differential Revision: https://phabricator.services.mozilla.com/D42'',
       files = [''a.c'']\<rparr>"
  let ?report = "Report (Some [''a.c'' \<mapsto> Report None (Some [1, 0])]) None"
  have parsed: "parse_revision_id
      ''Fix. Differential Revision: https://phabricator.services.mozilla.com/D42'' = Some 42"
    by (simp add: parse_revision_id_def match_at_def revision_regex_prefix_def is_digit_def
          int_of_digits_def)
  have found: "find_coverage ?report ''a.c'' = Inr (Some [1, 0])"
    by (simp add: find_coverage_def path_parts_def)
  have "process_path (\<lambda>rev path. None) ''build'' ?report (changeset_node ?cs) ''a.c''
            [''r1'' \<mapsto> \<lparr>revision_id = 42, paths = Map.empty\<rparr>] = Inl AssertionError \<and>
        (\<exists>e. generate (\<lambda>rev path. None) ''build'' ?report [?cs] = Inl e)"
    by (rule generate_build_annotate_missing[where rid = 42 and coverage_record = "[1, 0]"])
       (simp_all add: parsed found)
  then show ?thesis
    by (simp add: generate_def parsed)
qed











lemma store_path_frame:
  "store_path results cnode path stats = Inr results' \<Longrightarrow>
   (\<forall>k. k \<noteq> cnode \<longrightarrow> results' k = results k) \<and>
   map_option revision_id (results' cnode) = map_option revision_id (results cnode)"
  by (auto simp: store_path_def split: option.splits)

lemma process_path_frame:
  assumes "process_path get_annotate revision report cnode path results = Inr results'"
  shows "(\<forall>k. k \<noteq> cnode \<longrightarrow> results' k = results k) \<and>
   map_option revision_id (results' cnode) = map_option revision_id (results cnode)"
proof (cases "results' = results")
  case True
  then show ?thesis by simp
next
  case False
  with assms obtain stats where "store_path results cnode path stats = Inr results'"
    by (auto simp: process_path_def split: sum.splits option.splits)
  then show ?thesis by (rule store_path_frame)
qed

lemma process_files_frame:
  "process_files get_annotate revision report cnode paths_list results = Inr results' \<Longrightarrow>
   (\<forall>k. k \<noteq> cnode \<longrightarrow> results' k = results k) \<and>
   map_option revision_id (results' cnode) = map_option revision_id (results cnode)"
proof (induction paths_list arbitrary: results)
  case Nil
  then show ?case by simp
next
  case (Cons p ps)
  from Cons.prems obtain mid where
    step: "process_path get_annotate revision report cnode p results = Inr mid" and
    rest: "process_files get_annotate revision report cnode ps mid = Inr results'"
    by (auto split: sum.splits)
  from process_path_frame[OF step] Cons.IH[OF rest] show ?case by simp
qed

lemma process_path_skipped:
  assumes "process_path get_annotate revision report cnode path results = Inr results'"
    and "find_coverage report path = Inr None \<or> get_annotate cnode path = None"
  shows "results' = results"
  using assms by (auto simp: process_path_def split: sum.splits option.splits)

lemma process_files_skipped:
  "process_files get_annotate revision report cnode paths_list results = Inr results' \<Longrightarrow>
   \<forall>path\<in>set paths_list. find_coverage report path = Inr None \<or> get_annotate cnode path = None \<Longrightarrow>
   results' = results"
proof (induction paths_list arbitrary: results)
  case Nil
  then show ?case by simp
next
  case (Cons p ps)
  from Cons.prems(1) obtain mid where
    step: "process_path get_annotate revision report cnode p results = Inr mid" and
    rest: "process_files get_annotate revision report cnode ps mid = Inr results'"
    by (auto split: sum.splits)
  from Cons.prems(2) have "find_coverage report p = Inr None \<or> get_annotate cnode p = None"
    by simp
  with step have "mid = results" by (rule process_path_skipped)
  moreover from Cons.prems(2) have
    "\<forall>path\<in>set ps. find_coverage report path = Inr None \<or> get_annotate cnode path = None"
    by simp
  ultimately show ?case using Cons.IH[OF rest] by simp
qed

lemma generate_loop_other_nodes:
  "generate_loop get_annotate revision report changesets results = Inr results' \<Longrightarrow>
   \<forall>cs\<in>set changesets. changeset_node cs \<noteq> k \<Longrightarrow> results' k = results k"
proof (induction changesets arbitrary: results)
  case Nil
  then show ?case by simp
next
  case (Cons c rest)
  from Cons.prems(2) have k: "changeset_node c \<noteq> k" and others: "\<forall>cs\<in>set rest. changeset_node cs \<noteq> k"
    by simp_all
  show ?case
  proof (cases "parse_revision_id (desc c)")
    case None
    with Cons.prems(1) Cons.IH[OF _ others, of results] show ?thesis by simp
  next
    case (Some rid)
    with Cons.prems(1) obtain mid where
      files: "process_files get_annotate revision report (changeset_node c) (files c)
                (results(changeset_node c \<mapsto> \<lparr>revision_id = rid, paths = Map.empty\<rparr>)) = Inr mid"
      and loop: "generate_loop get_annotate revision report rest mid = Inr results'"
      by (auto split: sum.splits)
    from process_files_frame[OF files] k have "mid k = results k" by simp
    with Cons.IH[OF loop others] show ?thesis by simp
  qed
qed

lemma generate_loop_keeps_keys:
  "generate_loop get_annotate revision report changesets results = Inr results' \<Longrightarrow>
   results k \<noteq> None \<Longrightarrow> results' k \<noteq> None"
proof (induction changesets arbitrary: results)
  case Nil
  then show ?case by simp
next
  case (Cons c rest)
  show ?case
  proof (cases "parse_revision_id (desc c)")
    case None
    with Cons.prems Cons.IH[of results] show ?thesis by simp
  next
    case (Some rid)
    with Cons.prems(1) obtain mid where
      files: "process_files get_annotate revision report (changeset_node c) (files c)
                (results(changeset_node c \<mapsto> \<lparr>revision_id = rid, paths = Map.empty\<rparr>)) = Inr mid"
      and loop: "generate_loop get_annotate revision report rest mid = Inr results'"
      by (auto split: sum.splits)
    have "mid k \<noteq> None"
    proof (cases "k = changeset_node c")
      case True
      from process_files_frame[OF files] have
        "map_option revision_id (mid (changeset_node c)) = Some rid" by simp
      with True show ?thesis by auto
    next
      case False
      with process_files_frame[OF files] Cons.prems(2) show ?thesis by simp
    qed
    with Cons.IH[OF loop] show ?thesis by simp
  qed
qed

lemma generate_loop_has_entry:
  "generate_loop get_annotate revision report changesets results = Inr results' \<Longrightarrow>
   cs \<in> set changesets \<Longrightarrow> parse_revision_id (desc cs) = Some rid \<Longrightarrow>
   results' (changeset_node cs) \<noteq> None"
proof (induction changesets arbitrary: results)
  case Nil
  then show ?case by simp
next
  case (Cons c rest)
  show ?case
  proof (cases "cs \<in> set rest")
    case True
    show ?thesis
    proof (cases "parse_revision_id (desc c)")
      case None
      with Cons.prems(1) Cons.IH[OF _ True Cons.prems(3), of results] show ?thesis by simp
    next
      case (Some rid')
      with Cons.prems(1) obtain mid where
        "generate_loop get_annotate revision report rest mid = Inr results'"
        by (auto split: sum.splits)
      from Cons.IH[OF this True Cons.prems(3)] show ?thesis .
    qed
  next
    case False
    with Cons.prems(2) have c: "c = cs" by simp
    with Cons.prems(1,3) obtain mid where
      files: "process_files get_annotate revision report (changeset_node cs) (files cs)
                (results(changeset_node cs \<mapsto> \<lparr>revision_id = rid, paths = Map.empty\<rparr>)) = Inr mid"
      and loop: "generate_loop get_annotate revision report rest mid = Inr results'"
      by (auto split: sum.splits)
    from process_files_frame[OF files] have
      "map_option revision_id (mid (changeset_node cs)) = Some rid" by simp
    then have "mid (changeset_node cs) \<noteq> None" by auto
    with generate_loop_keeps_keys[OF loop] show ?thesis by simp
  qed
qed

lemma generate_loop_entry:
  "generate_loop get_annotate revision report changesets results = Inr results' \<Longrightarrow>
   cs \<in> set changesets \<Longrightarrow> parse_revision_id (desc cs) = Some rid \<Longrightarrow>
   \<forall>other\<in>set changesets. changeset_node other = changeset_node cs \<longrightarrow> other = cs \<Longrightarrow>
   \<exists>entry. results' (changeset_node cs) = Some entry \<and> revision_id entry = rid \<and>
     ((\<forall>path\<in>set (files cs). find_coverage report path = Inr None \<or>
                                get_annotate (changeset_node cs) path = None)
        \<longrightarrow> paths entry = Map.empty)"
proof (induction changesets arbitrary: results)
  case Nil
  then show ?case by simp
next
  case (Cons c rest)
  from Cons.prems(4) have unique: "\<forall>other\<in>set rest. changeset_node other = changeset_node cs \<longrightarrow> other = cs"
    by simp
  show ?case
  proof (cases "cs \<in> set rest")
    case True
    show ?thesis
    proof (cases "parse_revision_id (desc c)")
      case None
      with Cons.prems(1) have "generate_loop get_annotate revision report rest results = Inr results'"
        by simp
      from Cons.IH[OF this True Cons.prems(3) unique] show ?thesis .
    next
      case (Some rid')
      with Cons.prems(1) obtain mid where
        "generate_loop get_annotate revision report rest mid = Inr results'"
        by (auto split: sum.splits)
      from Cons.IH[OF this True Cons.prems(3) unique] show ?thesis .
    qed
  next
    case False
    with Cons.prems(2) have c: "c = cs" by simp
    with Cons.prems(1,3) obtain mid where
      files: "process_files get_annotate revision report (changeset_node cs) (files cs)
                (results(changeset_node cs \<mapsto> \<lparr>revision_id = rid, paths = Map.empty\<rparr>)) = Inr mid"
      and loop: "generate_loop get_annotate revision report rest mid = Inr results'"
      by (auto split: sum.splits)
    from unique False have "\<forall>other\<in>set rest. changeset_node other \<noteq> changeset_node cs"
      by auto
    with loop have final: "results' (changeset_node cs) = mid (changeset_node cs)"
      by (rule generate_loop_other_nodes)
    from process_files_frame[OF files] have
      "map_option revision_id (mid (changeset_node cs)) = Some rid" by simp
    then obtain entry where entry: "mid (changeset_node cs) = Some entry" "revision_id entry = rid"
      by auto
    have "paths entry = Map.empty"
      if "\<forall>path\<in>set (files cs). find_coverage report path = Inr None \<or>
                                get_annotate (changeset_node cs) path = None"
    proof -
      from process_files_skipped[OF files that]
      have "mid = results(changeset_node cs \<mapsto> \<lparr>revision_id = rid, paths = Map.empty\<rparr>)" .
      with entry(1) show ?thesis by auto
    qed
    with final entry show ?thesis by simp
  qed
qed


text \<open>
  C10. When \<^verbatim>\<open>generate\<close> returns, every changeset of the batch whose description
  has a review-request identifier has an entry under its node. When no other changeset
  of the batch has the same node, the entry carries the identifier of the changeset, and
  if every path of the changeset was skipped (not found in the report, or without
  annotate data at the changeset) its \<open>paths\<close> is empty.
\<close>

theorem generate_entry:
  assumes "generate get_annotate revision report changesets = Inr results"
    and "cs \<in> set changesets"
    and "parse_revision_id (desc cs) = Some rid"
  shows "results (changeset_node cs) \<noteq> None \<and>
    ((\<forall>other\<in>set changesets. changeset_node other = changeset_node cs \<longrightarrow> other = cs) \<longrightarrow>
       (\<exists>entry. results (changeset_node cs) = Some entry \<and> revision_id entry = rid \<and>
          ((\<forall>path\<in>set (files cs). find_coverage report path = Inr None \<or>
                                     get_annotate (changeset_node cs) path = None)
             \<longrightarrow> paths entry = Map.empty)))"
proof -
  from assms(1) have loop:
    "generate_loop get_annotate revision report changesets Map.empty = Inr results"
    by (simp add: generate_def)
  from generate_loop_has_entry[OF loop assms(2,3)] generate_loop_entry[OF loop assms(2,3)]
  show ?thesis by blast
qed

text \<open>
  A changeset both of whose paths are skipped, followed by a changeset without
  identifier.
\<close>

theorem generate_entry_witness:
  "generate
     (\<lambda>rev path. if rev = ''build'' \<and> path = ''a.c''
        then Some [\<lparr>lineno = 1, targetline = 1, node = ''r9''\<rparr>] else None)
     ''build'' (Report (Some [''a.c'' \<mapsto> Report None (Some [2])]) None)
     [\<lparr>changeset_node = ''r1'',
        desc = ''Differential Revision: https://phabricator.services.mozilla.com/D11'',
        files = [''docs/readme'', ''a.c'']\<rparr>,
      \<lparr>changeset_node = ''r2'', desc = ''Backed out'', files = [''a.c'']\<rparr>]
   = Inr [''r1'' \<mapsto> \<lparr>revision_id = 11, paths = Map.empty\<rparr>]"
proof -
  let ?hg = "\<lambda>rev path. if rev = ''build'' \<and> path = ''a.c''
        then Some [\<lparr>lineno = 1, targetline = 1, node = ''r9''\<rparr>] else None"
  let ?report = "Report (Some [''a.c'' \<mapsto> Report None (Some [2])]) None"
  let ?cs1 = "\<lparr>changeset_node = ''r1'',
        desc = ''Differential Revision: https://phabricator.services.mozilla.com/D11'',
        files = [''docs/readme'', ''a.c'']\<rparr>"
  let ?cs2 = "\<lparr>changeset_node = ''r2'', desc = ''Backed out'', files = [''a.c'']\<rparr>"
  have no_id: "parse_revision_id ''Backed out'' = None"
    by (simp add: parse_revision_id_def match_at_def revision_regex_prefix_def)
  have id: "parse_revision_id
      ''Differential Revision: https://phabricator.services.mozilla.com/D11'' = Some 11"
    by (simp add: parse_revision_id_def match_at_def revision_regex_prefix_def is_digit_def
          int_of_digits_def)
  have missing: "find_coverage ?report ''docs/readme'' = Inr None"
    by (simp add: find_coverage_def path_parts_def)
  have found: "find_coverage ?report ''a.c'' = Inr (Some [2])"
    by (simp add: find_coverage_def path_parts_def)
  have built: "build_coverage_map [\<lparr>lineno = 1, targetline = 1, node = ''r9''\<rparr>] [2]
      = Inr [(''r9'', 1) \<mapsto> 2]"
    by (simp add: build_coverage_map_def py_getitem_def coverage_key_def)
  obtain results where gen: "generate ?hg ''build'' ?report [?cs1, ?cs2] = Inr results"
    by (simp add: generate_def id no_id process_path_def missing found built)
  have member: "?cs1 \<in> set [?cs1, ?cs2]" by simp
  have parsed: "parse_revision_id (desc ?cs1) = Some 11" by (simp add: id)
  have unique: "\<forall>other\<in>set [?cs1, ?cs2]. changeset_node other = changeset_node ?cs1 \<longrightarrow> other = ?cs1"
    by simp
  have skipped: "\<forall>path\<in>set (files ?cs1). find_coverage ?report path = Inr None \<or>
      ?hg (changeset_node ?cs1) path = None"
    by (simp add: missing)
  from generate_entry[where get_annotate = ?hg and cs = ?cs1, OF gen member parsed] unique skipped
  obtain entry where "results (changeset_node ?cs1) = Some entry" "revision_id entry = 11"
    "paths entry = Map.empty"
    by blast
  then have r1: "results ''r1'' = Some \<lparr>revision_id = 11, paths = Map.empty\<rparr>" by simp
  have "results k = None" if "k \<noteq> ''r1''" for k
    using gen that by (simp add: generate_def id no_id process_path_def missing found built)
       (auto)
  with r1 have "results = [''r1'' \<mapsto> \<lparr>revision_id = 11, paths = Map.empty\<rparr>]"
    by (auto simp: fun_eq_iff)
  with gen show ?thesis by simp
qed

section \<open>The worked example\<close>

text \<open>
  C5. The coverage record \<open>[-1, 1, 1, 0]\<close> of a file of four lines, all of them from
  \<open>r0\<close>, and a changeset \<open>r1\<close> that inserts one line after line 2. The map has the
  four keys of \<open>r0\<close>; the classification string of the file at \<open>r1\<close> is
  \<open>NCXCU\<close>; the only added line is the one with index 2; and the counts are
  \<open>lines_added = 1\<close>, \<open>lines_unknown = 1\<close>, \<open>lines_covered = 0\<close>, also as
  \<^verbatim>\<open>generate\<close> returns them for the batch of this one changeset.
\<close>

theorem worked_example:
  "build_coverage_map
     [\<lparr>lineno = 1, targetline = 1, node = ''r0''\<rparr>, \<lparr>lineno = 2, targetline = 2, node = ''r0''\<rparr>,
      \<lparr>lineno = 3, targetline = 3, node = ''r0''\<rparr>, \<lparr>lineno = 4, targetline = 4, node = ''r0''\<rparr>]
     [- 1, 1, 1, 0]
     = Inr [(''r0'', 1) \<mapsto> - 1, (''r0'', 2) \<mapsto> 1, (''r0'', 3) \<mapsto> 1, (''r0'', 4) \<mapsto> 0] \<and>
   apply_coverage_map
     [\<lparr>lineno = 1, targetline = 1, node = ''r0''\<rparr>, \<lparr>lineno = 2, targetline = 2, node = ''r0''\<rparr>,
      \<lparr>lineno = 3, targetline = 1, node = ''r1''\<rparr>, \<lparr>lineno = 4, targetline = 3, node = ''r0''\<rparr>,
      \<lparr>lineno = 5, targetline = 4, node = ''r0''\<rparr>]
     [(''r0'', 1) \<mapsto> - 1, (''r0'', 2) \<mapsto> 1, (''r0'', 3) \<mapsto> 1, (''r0'', 4) \<mapsto> 0]
     = ''NCXCU'' \<and>
   added_lines ''r1''
     [\<lparr>lineno = 1, targetline = 1, node = ''r0''\<rparr>, \<lparr>lineno = 2, targetline = 2, node = ''r0''\<rparr>,
      \<lparr>lineno = 3, targetline = 1, node = ''r1''\<rparr>, \<lparr>lineno = 4, targetline = 3, node = ''r0''\<rparr>,
      \<lparr>lineno = 5, targetline = 4, node = ''r0''\<rparr>]
     = [2] \<and>
   path_stats [2] ''NCXCU''
     = Inr \<lparr>lines_added = 1, lines_unknown = 1, lines_covered = 0, coverage = ''NCXCU''\<rparr> \<and>
   generate
     (\<lambda>rev path.
        if path = ''file'' \<and> rev = ''r0'' then
          Some [\<lparr>lineno = 1, targetline = 1, node = ''r0''\<rparr>, \<lparr>lineno = 2, targetline = 2, node = ''r0''\<rparr>,
                \<lparr>lineno = 3, targetline = 3, node = ''r0''\<rparr>, \<lparr>lineno = 4, targetline = 4, node = ''r0''\<rparr>]
        else if path = ''file'' \<and> rev = ''r1'' then
          Some [\<lparr>lineno = 1, targetline = 1, node = ''r0''\<rparr>, \<lparr>lineno = 2, targetline = 2, node = ''r0''\<rparr>,
                \<lparr>lineno = 3, targetline = 1, node = ''r1''\<rparr>, \<lparr>lineno = 4, targetline = 3, node = ''r0''\<rparr>,
                \<lparr>lineno = 5, targetline = 4, node = ''r0''\<rparr>]
        else None)
     ''r0'' (Report (Some [''file'' \<mapsto> Report None (Some [- 1, 1, 1, 0])]) None)
     [\<lparr>changeset_node = ''r1'',
       desc = ''Differential Revision: https://phabricator.services.mozilla.com/D1'',
       files = [''file'']\<rparr>]
     = Inr [''r1'' \<mapsto> \<lparr>revision_id = 1, paths = [''file'' \<mapsto>
         \<lparr>lines_added = 1, lines_unknown = 1, lines_covered = 0, coverage = ''NCXCU''\<rparr>]\<rparr>]"
proof -
  let ?build = "[\<lparr>lineno = 1, targetline = 1, node = ''r0''\<rparr>, \<lparr>lineno = 2, targetline = 2, node = ''r0''\<rparr>,
      \<lparr>lineno = 3, targetline = 3, node = ''r0''\<rparr>, \<lparr>lineno = 4, targetline = 4, node = ''r0''\<rparr>]"
  let ?target = "[\<lparr>lineno = 1, targetline = 1, node = ''r0''\<rparr>, \<lparr>lineno = 2, targetline = 2, node = ''r0''\<rparr>,
      \<lparr>lineno = 3, targetline = 1, node = ''r1''\<rparr>, \<lparr>lineno = 4, targetline = 3, node = ''r0''\<rparr>,
      \<lparr>lineno = 5, targetline = 4, node = ''r0''\<rparr>]"
  let ?map = "[(''r0'', 1) \<mapsto> - 1, (''r0'', 2) \<mapsto> 1, (''r0'', 3) \<mapsto> 1, (''r0'', 4) \<mapsto> (0::int)]"
  let ?report = "Report (Some [''file'' \<mapsto> Report None (Some [- 1, 1, 1, 0])]) None"
  have built: "build_coverage_map ?build [- 1, 1, 1, 0] = Inr ?map"
    by (simp add: build_coverage_map_def py_getitem_def coverage_key_def)
  have symbols: "apply_coverage_map ?target ?map = ''NCXCU''"
    by (simp add: apply_coverage_map_def classify_def coverage_key_def)
  have added: "added_lines ''r1'' ?target = [2]"
    by (simp add: added_lines_def)
  have stats: "path_stats [2] ''NCXCU''
     = Inr \<lparr>lines_added = 1, lines_unknown = 1, lines_covered = 0, coverage = ''NCXCU''\<rparr>"
    by (simp add: path_stats_def py_getitem_def)
  have id: "parse_revision_id
      ''Differential Revision: https://phabricator.services.mozilla.com/D1'' = Some 1"
    by (simp add: parse_revision_id_def match_at_def revision_regex_prefix_def is_digit_def
          int_of_digits_def)
  have found: "find_coverage ?report ''file'' = Inr (Some [- 1, 1, 1, 0])"
    by (simp add: find_coverage_def path_parts_def)
  have batch: "generate
     (\<lambda>rev path. if path = ''file'' \<and> rev = ''r0'' then Some ?build
        else if path = ''file'' \<and> rev = ''r1'' then Some ?target else None)
     ''r0'' ?report
     [\<lparr>changeset_node = ''r1'',
       desc = ''Differential Revision: https://phabricator.services.mozilla.com/D1'',
       files = [''file'']\<rparr>]
     = Inr [''r1'' \<mapsto> \<lparr>revision_id = 1, paths = [''file'' \<mapsto>
         \<lparr>lines_added = 1, lines_unknown = 1, lines_covered = 0, coverage = ''NCXCU''\<rparr>]\<rparr>]"
    by (simp add: generate_def id process_path_def found built symbols added stats store_path_def)
  from built symbols added stats batch show ?thesis by simp
qed

end
